theory Spec2Isabelle
  imports Complex_Main "HOL-Library.Sublist"
begin

section \<open>JavaScript numbers\<close>

text \<open>
  The calculator computes on JavaScript Numbers, that is on IEEE 754 binary64 values with
  round-to-nearest, ties-to-even. A finite value is kept as the rational it denotes;
  \<open>Fin 0\<close> is the positive zero and \<open>NZero\<close> the negative one. NaN payloads are not
  observable in JavaScript and are not modelled.
\<close>

datatype jsnum = NaN | PInf | NInf | NZero | Fin rat

fun bit_length :: "nat \<Rightarrow> nat" where
  "bit_length n = (if n = 0 then 0 else Suc (bit_length (n div 2)))"

declare bit_length.simps [simp del]

definition pow2 :: "int \<Rightarrow> rat" where
  "pow2 e = (if 0 \<le> e then 2 ^ nat e else 1 / 2 ^ nat (- e))"

text \<open>\<open>floor_log2 q\<close> is the \<open>e\<close> with \<open>2 ^ e \<le> q < 2 ^ (e + 1)\<close>, for \<open>q > 0\<close>.\<close>

definition floor_log2 :: "rat \<Rightarrow> int" where
  "floor_log2 q =
     (if 1 \<le> q then int (bit_length (nat \<lfloor>q\<rfloor>)) - 1
      else - int (bit_length (nat (- \<lfloor>- (1 / q)\<rfloor> - 1))))"

definition round_half_even :: "rat \<Rightarrow> int" where
  "round_half_even x =
     (if x - of_int \<lfloor>x\<rfloor> < 1 / 2 then \<lfloor>x\<rfloor>
      else if 1 / 2 < x - of_int \<lfloor>x\<rfloor> then \<lfloor>x\<rfloor> + 1
      else if even \<lfloor>x\<rfloor> then \<lfloor>x\<rfloor> else \<lfloor>x\<rfloor> + 1)"

text \<open>
  Rounding a nonzero rational \<open>q\<close> to binary64: the unit in the last place is
  \<open>2 ^ u\<close>, with 53 significant bits and no exponent below that of the subnormals;
  \<open>m\<close> is the magnitude in units, rounded to nearest with ties to even. A magnitude of
  \<open>2 ^ 1024\<close> or more overflows to an infinity.
\<close>

definition ulp_exponent :: "rat \<Rightarrow> int" where
  "ulp_exponent a = max (floor_log2 a - 52) (- 1074)"

definition pack_double :: "bool \<Rightarrow> int \<Rightarrow> int \<Rightarrow> jsnum" where
  "pack_double neg m u =
     (if m = 0 then (if neg then NZero else Fin 0)
      else if 1024 \<le> floor_log2 (of_int m * pow2 u) then (if neg then NInf else PInf)
      else Fin (if neg then - (of_int m * pow2 u) else of_int m * pow2 u))"

definition round_magnitude :: "bool \<Rightarrow> rat \<Rightarrow> int \<Rightarrow> jsnum" where
  "round_magnitude neg a u = pack_double neg (round_half_even (a / pow2 u)) u"

definition round_double :: "rat \<Rightarrow> jsnum" where
  "round_double q =
     (if q = 0 then Fin 0 else round_magnitude (q < 0) \<bar>q\<bar> (ulp_exponent \<bar>q\<bar>))"

definition is_zero :: "jsnum \<Rightarrow> bool" where
  "is_zero x = (x = Fin 0 \<or> x = NZero)"

definition is_inf :: "jsnum \<Rightarrow> bool" where
  "is_inf x = (x = PInf \<or> x = NInf)"

fun is_neg :: "jsnum \<Rightarrow> bool" where
  "is_neg NInf = True"
| "is_neg NZero = True"
| "is_neg (Fin q) = (q < 0)"
| "is_neg _ = False"

fun val :: "jsnum \<Rightarrow> rat" where
  "val (Fin q) = q"
| "val _ = 0"

definition signed_inf :: "bool \<Rightarrow> jsnum" where
  "signed_inf neg = (if neg then NInf else PInf)"

definition signed_zero :: "bool \<Rightarrow> jsnum" where
  "signed_zero neg = (if neg then NZero else Fin 0)"

fun fneg :: "jsnum \<Rightarrow> jsnum" where
  "fneg NaN = NaN"
| "fneg PInf = NInf"
| "fneg NInf = PInf"
| "fneg NZero = Fin 0"
| "fneg (Fin q) = (if q = 0 then NZero else Fin (- q))"

definition fadd :: "jsnum \<Rightarrow> jsnum \<Rightarrow> jsnum" where
  "fadd x y =
     (if x = NaN \<or> y = NaN then NaN
      else if is_inf x \<and> is_inf y then (if x = y then x else NaN)
      else if is_inf x then x
      else if is_inf y then y
      else if is_zero x \<and> is_zero y then signed_zero (x = NZero \<and> y = NZero)
      else if val x + val y = 0 then Fin 0
      else round_double (val x + val y))"

definition fsub :: "jsnum \<Rightarrow> jsnum \<Rightarrow> jsnum" where
  "fsub x y = fadd x (fneg y)"

definition fmul :: "jsnum \<Rightarrow> jsnum \<Rightarrow> jsnum" where
  "fmul x y =
     (if x = NaN \<or> y = NaN then NaN
      else if (is_inf x \<and> is_zero y) \<or> (is_zero x \<and> is_inf y) then NaN
      else if is_inf x \<or> is_inf y then signed_inf (is_neg x \<noteq> is_neg y)
      else if is_zero x \<or> is_zero y then signed_zero (is_neg x \<noteq> is_neg y)
      else round_double (val x * val y))"

definition fdiv :: "jsnum \<Rightarrow> jsnum \<Rightarrow> jsnum" where
  "fdiv x y =
     (if x = NaN \<or> y = NaN then NaN
      else if (is_inf x \<and> is_inf y) \<or> (is_zero x \<and> is_zero y) then NaN
      else if is_inf x \<or> is_zero y then signed_inf (is_neg x \<noteq> is_neg y)
      else if is_inf y \<or> is_zero x then signed_zero (is_neg x \<noteq> is_neg y)
      else round_double (val x / val y))"

text \<open>\<open>Math.round\<close>: the nearest integer, a tie going up; a result of zero keeps the
  sign of the argument.\<close>

fun Math_round :: "jsnum \<Rightarrow> jsnum" where
  "Math_round (Fin q) =
     (if \<lfloor>q + 1 / 2\<rfloor> = 0 \<and> q < 0 then NZero else Fin (of_int \<lfloor>q + 1 / 2\<rfloor>))"
| "Math_round x = x"


section \<open>Reading decimal literals\<close>

text \<open>
  Strings are lists of code units; the model covers the code units below 256, which
  include every character the calculator gives a meaning to.
\<close>

definition is_digit :: "char \<Rightarrow> bool" where
  "is_digit c = (c \<in> set ''0123456789'')"

definition digit_val :: "char \<Rightarrow> nat" where
  "digit_val c = of_char c - 48"

definition digits_val :: "string \<Rightarrow> nat" where
  "digits_val ds = foldl (\<lambda>a c. 10 * a + digit_val c) 0 ds"

text \<open>White space and line terminators, as \<open>trim\<close>, \<open>\s\<close> and \<open>parseFloat\<close> see them.\<close>

definition is_space :: "char \<Rightarrow> bool" where
  "is_space c = (of_char c \<in> set [9, 10, 11, 12, 13, 32, 160 :: nat])"

definition pow10 :: "int \<Rightarrow> rat" where
  "pow10 e = (if 0 \<le> e then 10 ^ nat e else 1 / 10 ^ nat (- e))"

definition split_sign :: "string \<Rightarrow> bool \<times> string" where
  "split_sign s =
     (case s of
        [] \<Rightarrow> (False, s)
      | c # cs \<Rightarrow> if c = CHR ''-'' then (True, cs)
                 else if c = CHR ''+'' then (False, cs) else (False, s))"

definition signed_value :: "bool \<Rightarrow> rat \<Rightarrow> jsnum" where
  "signed_value neg m =
     (if m = 0 then signed_zero neg else round_double (if neg then - m else m))"

definition decimal_value :: "bool \<Rightarrow> string \<Rightarrow> string \<Rightarrow> int \<Rightarrow> jsnum" where
  "decimal_value neg ip fp ex =
     signed_value neg (of_nat (digits_val (ip @ fp)) * pow10 (ex - int (length fp)))"

definition parse_exponent :: "string \<Rightarrow> int \<times> string" where
  "parse_exponent s =
     (case s of
        [] \<Rightarrow> (0, s)
      | c # cs \<Rightarrow>
          if c = CHR ''e'' \<or> c = CHR ''E'' then
            (let (eneg, s') = split_sign cs; ed = takeWhile is_digit s'
             in if ed = [] then (0, s)
                else (if eneg then - int (digits_val ed) else int (digits_val ed),
                      dropWhile is_digit s'))
          else (0, s))"

text \<open>The longest prefix of the string that is a \<open>StrDecimalLiteral\<close>, with its value
  (the exact decimal value, rounded once) and the rest of the string.\<close>

definition parse_decimal :: "string \<Rightarrow> (jsnum \<times> string) option" where
  "parse_decimal s =
     (let (neg, s1) = split_sign s in
      if prefix ''Infinity'' s1 then Some (signed_inf neg, drop 8 s1)
      else
        let ip = takeWhile is_digit s1;
            s2 = dropWhile is_digit s1;
            has_dot = (case s2 of [] \<Rightarrow> False | c # _ \<Rightarrow> c = CHR ''.'');
            fp = (if has_dot then takeWhile is_digit (tl s2) else []);
            s3 = (if has_dot then dropWhile is_digit (tl s2) else s2)
        in if ip = [] \<and> fp = [] then None
           else (let (ex, s4) = parse_exponent s3
                 in Some (decimal_value neg ip fp ex, s4)))"

definition parseFloat :: "string \<Rightarrow> jsnum" where
  "parseFloat s =
     (case parse_decimal (dropWhile is_space s) of None \<Rightarrow> NaN | Some (v, _) \<Rightarrow> v)"

section \<open>The expression evaluator\<close>

text \<open>
  A token is \<open>{type: 'op', value}\<close> or \<open>{type: 'num', value, isPercent}\<close>. The value
  of an operator token is one of the four characters of the set \<open>ops\<close>.
\<close>

datatype opsym = Plus | Minus | Times | Divide

datatype token = TOp opsym | TNum jsnum bool

definition op_of_char :: "char \<Rightarrow> opsym option" where
  "op_of_char c =
     (if c = CHR ''+'' then Some Plus
      else if c = CHR ''-'' then Some Minus
      else if c = CHR ''*'' then Some Times
      else if c = CHR ''/'' then Some Divide
      else None)"

definition is_num_char :: "char \<Rightarrow> bool" where
  "is_num_char c = (is_digit c \<or> c = CHR ''.'')"

text \<open>After a numeral, \<open>str[i] === '%'\<close> sets the percent flag and steps over the sign.\<close>

definition percent_follows :: "string \<Rightarrow> bool" where
  "percent_follows rest = (case rest of [] \<Rightarrow> False | d # _ \<Rightarrow> d = CHR ''%'')"

definition skip_percent :: "string \<Rightarrow> string" where
  "skip_percent rest = (if percent_follows rest then tl rest else rest)"

text \<open>The loop of \<open>tokenize\<close>, on the part of the string from index \<open>i\<close> on, with
  the tokens pushed so far. \<open>None\<close> is the \<open>return null\<close>.\<close>

function tokenize_loop :: "string \<Rightarrow> token list \<Rightarrow> token list option" where
  "tokenize_loop [] tokens = Some tokens"
| "tokenize_loop (c # cs) tokens =
     (case op_of_char c of
        Some oper \<Rightarrow> tokenize_loop cs (tokens @ [TOp oper])
      | None \<Rightarrow>
          if is_num_char c then
            (let num = takeWhile is_num_char (c # cs);
                 rest = dropWhile is_num_char (c # cs);
                 n = parseFloat num
             in if n = NaN then None
                else tokenize_loop (skip_percent rest) (tokens @ [TNum n (percent_follows rest)]))
          else tokenize_loop cs tokens)"
  by pat_completeness auto
termination
proof (relation "measure (\<lambda>(s, _). length s)", simp_all, goal_cases)
  case (1 c cs x xa xb)
  have "length (dropWhile is_num_char cs) \<le> length cs"
    by (rule length_dropWhile_le)
  moreover have "length (skip_percent r) \<le> length r" for r
    by (simp add: skip_percent_def)
  ultimately show ?case
    using le_trans by fastforce
qed

definition tokenize :: "string \<Rightarrow> token list option" where
  "tokenize str = tokenize_loop str []"

text \<open>The strings \<open>num\<close> that the scan of \<open>tokenize\<close> accumulates, when no
  \<open>return null\<close> stops it: the same walk through the string, keeping the numerals only.\<close>

function numerals :: "string \<Rightarrow> string list" where
  "numerals [] = []"
| "numerals (c # cs) =
     (case op_of_char c of
        Some oper \<Rightarrow> numerals cs
      | None \<Rightarrow>
          if is_num_char c then
            takeWhile is_num_char (c # cs)
              # numerals (skip_percent (dropWhile is_num_char (c # cs)))
          else numerals cs)"
  by pat_completeness auto
termination
proof (relation "measure length", simp_all, goal_cases)
  case (1 c cs)
  have "length (dropWhile is_num_char cs) \<le> length cs"
    by (rule length_dropWhile_le)
  moreover have "length (skip_percent r) \<le> length r" for r
    by (simp add: skip_percent_def)
  ultimately show ?case
    using le_trans by fastforce
qed

text \<open>
  The entries of \<open>nums\<close> are \<open>{value, isPercent}\<close>. Combining two of them under an
  operator gives the new value, or nothing when the divisor is zero (the source returns
  \<open>'Error'\<close> from inside the loop).
\<close>

record operand =
  num_value :: jsnum
  isPercent :: bool

definition percent_adjusted :: "operand \<Rightarrow> jsnum" where
  "percent_adjusted a = (if isPercent a then fdiv (num_value a) (Fin 100) else num_value a)"

definition combine :: "operand \<Rightarrow> opsym \<Rightarrow> operand \<Rightarrow> jsnum option" where
  "combine a oper b =
     (let aVal = percent_adjusted a; bVal = percent_adjusted b
      in case oper of
           Times \<Rightarrow> Some (fmul aVal bVal)
         | Divide \<Rightarrow> if is_zero bVal then None else Some (fdiv aVal bVal)
         | Plus \<Rightarrow>
             (let right = (if isPercent b then fmul aVal (fdiv (num_value b) (Fin 100)) else bVal)
              in Some (fadd aVal right))
         | Minus \<Rightarrow>
             (let right = (if isPercent b then fmul aVal (fdiv (num_value b) (Fin 100)) else bVal)
              in Some (fsub aVal right)))"

fun findIndex :: "('a \<Rightarrow> bool) \<Rightarrow> 'a list \<Rightarrow> nat option" where
  "findIndex P [] = None"
| "findIndex P (x # xs) =
     (if P x then Some 0 else map_option Suc (findIndex P xs))"

definition splice :: "'a list \<Rightarrow> nat \<Rightarrow> nat \<Rightarrow> 'a list \<Rightarrow> 'a list" where
  "splice xs start count items = take start xs @ items @ drop (start + count) xs"

text \<open>
  The \<open>while\<close> loop of one pass. It ends with the reduced lists, with the \<open>'Error'\<close>
  returned on a zero divisor, or with the \<open>TypeError\<close> that reading \<open>isPercent\<close> of a
  missing operand would throw.
\<close>

datatype pass_result = Reduced "operand list" "opsym list" | DivByZero | TypeError

function reduce_pass :: "opsym list \<Rightarrow> operand list \<Rightarrow> opsym list \<Rightarrow> pass_result" where
  "reduce_pass priority nums ops =
     (case findIndex (\<lambda>o'. o' \<in> set priority) ops of
        None \<Rightarrow> Reduced nums ops
      | Some idx \<Rightarrow>
          if idx + 1 < length nums then
            (case combine (nums ! idx) (ops ! idx) (nums ! (idx + 1)) of
               None \<Rightarrow> DivByZero
             | Some r \<Rightarrow>
                 reduce_pass priority
                   (splice nums idx 2 [\<lparr>num_value = r, isPercent = False\<rparr>])
                   (splice ops idx 1 []))
          else TypeError)"
  by pat_completeness auto
termination
proof (relation "measure (\<lambda>(_, _, ops). length ops)", simp_all, goal_cases)
  case (1 priority nums ops idx r)
  have "findIndex P xs = Some i \<Longrightarrow> i < length xs" for P :: "opsym \<Rightarrow> bool" and xs i
    by (induction xs arbitrary: i) (auto split: if_splits)
  from this [OF 1(1)] show ?case by (simp add: splice_def)
qed

declare reduce_pass.simps [simp del]

text \<open>What \<open>evaluate\<close> returns: \<open>null\<close>, a number or \<open>'Error'\<close>; \<open>Threw\<close> stands for
  an exception leaving the function.\<close>

datatype result = NoResult | Number jsnum | ErrorMarker | Threw

definition nums_of :: "token list \<Rightarrow> operand list" where
  "nums_of tokens =
     concat (map (\<lambda>t. case t of TNum v p \<Rightarrow> [\<lparr>num_value = v, isPercent = p\<rparr>] | TOp _ \<Rightarrow> []) tokens)"

definition ops_of :: "token list \<Rightarrow> opsym list" where
  "ops_of tokens = concat (map (\<lambda>t. case t of TOp oper \<Rightarrow> [oper] | TNum _ _ \<Rightarrow> []) tokens)"

definition round10 :: "jsnum \<Rightarrow> jsnum" where
  "round10 x = fdiv (Math_round (fmul x (Fin (10 ^ 10)))) (Fin (10 ^ 10))"

definition finalize :: "operand list \<Rightarrow> result" where
  "finalize nums =
     (case nums of
        [] \<Rightarrow> Threw
      | n # _ \<Rightarrow>
          (let r = percent_adjusted n
           in if r = PInf \<or> r = NInf \<or> r = NaN then ErrorMarker
              else Number (round10 r)))"

definition evaluate :: "string \<Rightarrow> result" where
  "evaluate expr =
     (case tokenize expr of
        None \<Rightarrow> NoResult
      | Some tokens \<Rightarrow>
          (case tokens of
             [] \<Rightarrow> NoResult
           | TOp _ # _ \<Rightarrow> NoResult
           | [TNum v p] \<Rightarrow> Number (if p then fdiv v (Fin 100) else v)
           | TNum _ _ # _ # _ \<Rightarrow>
               (let nums = nums_of tokens; ops = ops_of tokens
                in if int (length ops) \<noteq> int (length nums) - 1 then NoResult
                   else (case reduce_pass [Times, Divide] nums ops of
                           DivByZero \<Rightarrow> ErrorMarker
                         | TypeError \<Rightarrow> Threw
                         | Reduced nums1 ops1 \<Rightarrow>
                             (case reduce_pass [Plus, Minus] nums1 ops1 of
                                DivByZero \<Rightarrow> ErrorMarker
                              | TypeError \<Rightarrow> Threw
                              | Reduced nums2 ops2 \<Rightarrow> finalize nums2)))))"


section \<open>Conversions between numbers and strings\<close>

definition trim :: "string \<Rightarrow> string" where
  "trim s = rev (dropWhile is_space (rev (dropWhile is_space s)))"

text \<open>\<open>Number(string)\<close>, the conversion the arithmetic operators apply to a string
  operand: the whole trimmed string has to be a numeric literal.\<close>

definition radix_digit :: "char \<Rightarrow> nat option" where
  "radix_digit c =
     (if is_digit c then Some (digit_val c)
      else if c \<in> set ''abcdef'' then Some (of_char c - 87)
      else if c \<in> set ''ABCDEF'' then Some (of_char c - 55)
      else None)"

definition radix_value :: "nat \<Rightarrow> string \<Rightarrow> jsnum" where
  "radix_value b ds =
     (if ds \<noteq> [] \<and> (\<forall>c \<in> set ds. case radix_digit c of None \<Rightarrow> False | Some d \<Rightarrow> d < b)
      then round_double (of_nat (foldl (\<lambda>a c. b * a + the (radix_digit c)) 0 ds))
      else NaN)"

definition StringToNumber :: "string \<Rightarrow> jsnum" where
  "StringToNumber s =
     (let t = trim s in
      if t = [] then Fin 0
      else if take 2 t \<in> set [''0x'', ''0X''] then radix_value 16 (drop 2 t)
      else if take 2 t \<in> set [''0o'', ''0O''] then radix_value 8 (drop 2 t)
      else if take 2 t \<in> set [''0b'', ''0B''] then radix_value 2 (drop 2 t)
      else (case parse_decimal t of
              None \<Rightarrow> NaN
            | Some (v, rest) \<Rightarrow> if rest = [] then v else NaN))"

text \<open>
  \<open>String(number)\<close>: the shortest decimal digit string \<open>s\<close> (of \<open>k\<close> digits) and the
  exponent \<open>n\<close> for which \<open>s \<times> 10 ^ (n - k)\<close> rounds to the number, the nearest such
  \<open>s\<close> where several do; then the layout of \<open>Number::toString\<close>.
\<close>

definition digit_char :: "nat \<Rightarrow> char" where
  "digit_char d = ''0123456789'' ! d"

function show_nat :: "nat \<Rightarrow> string" where
  "show_nat n = (if n < 10 then [digit_char n] else show_nat (n div 10) @ [digit_char (n mod 10)])"
  by pat_completeness auto
termination
  by (relation "measure id") auto

declare show_nat.simps [simp del]

function dec_length :: "nat \<Rightarrow> nat" where
  "dec_length n = (if n < 10 then 1 else Suc (dec_length (n div 10)))"
  by pat_completeness auto
termination
  by (relation "measure id") auto

declare dec_length.simps [simp del]

text \<open>\<open>floor_log10 v\<close> is the \<open>e\<close> with \<open>10 ^ e \<le> v < 10 ^ (e + 1)\<close>, for \<open>v > 0\<close>.\<close>

definition floor_log10 :: "rat \<Rightarrow> int" where
  "floor_log10 v =
     (if 1 \<le> v then int (dec_length (nat \<lfloor>v\<rfloor>)) - 1
      else - int (dec_length (nat (- \<lfloor>- (1 / v)\<rfloor> - 1))))"

definition rounds_to :: "rat \<Rightarrow> int \<Rightarrow> int \<Rightarrow> bool" where
  "rounds_to v s e = (round_double (of_int s * pow10 e) = Fin v)"

definition prefer_low :: "rat \<Rightarrow> int \<Rightarrow> int \<Rightarrow> bool" where
  "prefer_low v lo e =
     (v - of_int lo * pow10 e < of_int (lo + 1) * pow10 e - v
      \<or> (v - of_int lo * pow10 e = of_int (lo + 1) * pow10 e - v \<and> even lo))"

text \<open>The digits for a given number of digits \<open>k\<close>, where \<open>10 ^ (n0 - 1) \<le> v < 10 ^ n0\<close>:
  the candidates are the two \<open>k\<close>-digit decimals around \<open>v\<close>.\<close>

definition digits_at :: "rat \<Rightarrow> int \<Rightarrow> nat \<Rightarrow> (int \<times> int) option" where
  "digits_at v n0 k =
     (let e = n0 - int k;
          lo = \<lfloor>v / pow10 e\<rfloor>;
          ok_lo = rounds_to v lo e;
          ok_hi = rounds_to v (lo + 1) e
      in if ok_lo \<and> (\<not> ok_hi \<or> prefer_low v lo e) then Some (lo, n0)
         else if ok_hi then
           (if lo + 1 = 10 ^ k then Some (10 ^ (k - 1), n0 + 1) else Some (lo + 1, n0))
         else None)"

function shortest_digits :: "rat \<Rightarrow> int \<Rightarrow> nat \<Rightarrow> int \<times> int" where
  "shortest_digits v n0 k =
     (case digits_at v n0 k of
        Some r \<Rightarrow> r
      | None \<Rightarrow> if 17 \<le> k then (\<lfloor>v / pow10 (n0 - int k)\<rfloor>, n0)
                else shortest_digits v n0 (Suc k))"
  by pat_completeness auto
termination
  by (relation "measure (\<lambda>(v, n0, k). 17 - k)") auto

declare shortest_digits.simps [simp del]

definition layout :: "string \<Rightarrow> int \<Rightarrow> string" where
  "layout ds n =
     (let k = int (length ds) in
      if k \<le> n \<and> n \<le> 21 then ds @ replicate (nat (n - k)) (CHR ''0'')
      else if 0 < n \<and> n \<le> 21 then take (nat n) ds @ ''.'' @ drop (nat n) ds
      else if - 6 < n \<and> n \<le> 0 then ''0.'' @ replicate (nat (- n)) (CHR ''0'') @ ds
      else (if k = 1 then ds else take 1 ds @ ''.'' @ drop 1 ds)
           @ ''e'' @ (if 0 \<le> n - 1 then ''+'' else ''-'') @ show_nat (nat \<bar>n - 1\<bar>))"

definition positive_toString :: "rat \<Rightarrow> string" where
  "positive_toString v =
     (case shortest_digits v (floor_log10 v + 1) 1 of (s, n) \<Rightarrow> layout (show_nat (nat s)) n)"

fun Number_toString :: "jsnum \<Rightarrow> string" where
  "Number_toString NaN = ''NaN''"
| "Number_toString PInf = ''Infinity''"
| "Number_toString NInf = ''-Infinity''"
| "Number_toString NZero = ''0''"
| "Number_toString (Fin q) =
     (if q = 0 then ''0''
      else if q < 0 then ''-'' @ positive_toString (- q)
      else positive_toString q)"

section \<open>Diagram blocks\<close>

text \<open>
  A result of a block is \<open>null\<close>, a number or a string: the string \<open>'Error'\<close>, or what
  \<open>+\<close> makes of a string operand.
\<close>

datatype jsval = JNull | JNum jsnum | JStr string

fun ToNumber :: "jsval \<Rightarrow> jsnum" where
  "ToNumber JNull = Fin 0"
| "ToNumber (JNum n) = n"
| "ToNumber (JStr s) = StringToNumber s"

fun ToString :: "jsval \<Rightarrow> string" where
  "ToString JNull = ''null''"
| "ToString (JNum n) = Number_toString n"
| "ToString (JStr s) = s"

record block =
  block_id :: nat
  left :: string
  op :: string
  right :: string

definition ref_digits :: "string \<Rightarrow> string option" where
  "ref_digits t =
     (case t of
        [] \<Rightarrow> None
      | c # ds \<Rightarrow> if c = CHR ''#'' \<and> ds \<noteq> [] \<and> (\<forall>d \<in> set ds. is_digit d) then Some ds else None)"

definition is_operand_char :: "char \<Rightarrow> bool" where
  "is_operand_char c = (is_digit c \<or> c \<in> set ''.-%'')"

definition ends_with_percent :: "string \<Rightarrow> bool" where
  "ends_with_percent t = (t \<noteq> [] \<and> last t = CHR ''%'')"

text \<open>
  In \<open>resolveDiagramValue\<close> the index \<open>parseInt(digits, 10) - 1\<close> is taken exactly. The
  double differs from it only from \<open>2 ^ 53\<close> on, where no array has an element, so the
  bounds test has the same outcome; an element inside the bounds is never \<open>undefined\<close>.
\<close>

definition resolveDiagramValue :: "string \<Rightarrow> jsval list \<Rightarrow> jsval" where
  "resolveDiagramValue str results =
     (if str = [] then JNull
      else
        let t = trim str in
        case ref_digits t of
          Some ds \<Rightarrow>
            (let idx = int (digits_val ds) - 1 in
             if 0 \<le> idx \<and> idx < int (length results) \<and> results ! nat idx \<noteq> JNull
             then results ! nat idx else JNull)
        | None \<Rightarrow>
            (let num = parseFloat (filter is_operand_char t) in
             if num = NaN then JNull
             else if ends_with_percent t then JNum (fdiv num (Fin 100)) else JNum num))"

definition js_plus :: "jsval \<Rightarrow> jsval \<Rightarrow> jsval" where
  "js_plus l r =
     (case (l, r) of
        (JNum a, JNum b) \<Rightarrow> JNum (fadd a b)
      | _ \<Rightarrow> JStr (ToString l @ ToString r))"

definition computeDiagramBlock :: "block \<Rightarrow> jsval list \<Rightarrow> jsval" where
  "computeDiagramBlock b results =
     (let l = resolveDiagramValue (left b) results;
          r = resolveDiagramValue (right b) results
      in if l = JNull \<or> r = JNull then JNull
         else
           let oper = trim (if op b = [] then ''+'' else op b) in
           if oper = ''*'' then JNum (fmul (ToNumber l) (ToNumber r))
           else if oper = ''/'' then
             (if (case r of JNum n \<Rightarrow> is_zero n | _ \<Rightarrow> False) then JStr ''Error''
              else JNum (fdiv (ToNumber l) (ToNumber r)))
           else if oper = ''+'' then js_plus l r
           else if oper = ''-'' then JNum (fsub (ToNumber l) (ToNumber r))
           else JNull)"

definition store_value :: "jsval \<Rightarrow> jsval" where
  "store_value v =
     (if v \<noteq> JNull \<and> v \<noteq> JStr ''Error''
      then (case v of JNum n \<Rightarrow> JNum (round10 n) | _ \<Rightarrow> v)
      else v)"

text \<open>The \<open>for\<close> loop of \<open>getDiagramResults\<close>, on the blocks from index \<open>i\<close> on, with the
  results pushed so far.\<close>

fun results_loop :: "block list \<Rightarrow> jsval list \<Rightarrow> jsval list" where
  "results_loop [] results = results"
| "results_loop (b # bs) results =
     results_loop bs (results @ [store_value (computeDiagramBlock b results)])"

definition getDiagramResults :: "block list \<Rightarrow> jsval list" where
  "getDiagramResults diagramBlocks = results_loop diagramBlocks []"

section \<open>Evaluating with a value for x\<close>

definition is_x :: "char \<Rightarrow> bool" where
  "is_x c = (c = CHR ''x'' \<or> c = CHR ''X'')"

text \<open>\<open>replace(/(\d)x/gi, '$1*' + xStr)\<close>: the matches are taken from left to right and do
  not overlap.\<close>

fun replace_digit_x :: "string \<Rightarrow> string \<Rightarrow> string" where
  "replace_digit_x xStr (d # c # rest) =
     (if is_digit d \<and> is_x c then d # CHR ''*'' # xStr @ replace_digit_x xStr rest
      else d # replace_digit_x xStr (c # rest))"
| "replace_digit_x xStr s = s"

text \<open>\<open>replace(/x(\d)/gi, xStr + '*$1')\<close>.\<close>

fun replace_x_digit :: "string \<Rightarrow> string \<Rightarrow> string" where
  "replace_x_digit xStr (c # d # rest) =
     (if is_x c \<and> is_digit d then xStr @ CHR ''*'' # d # replace_x_digit xStr rest
      else c # replace_x_digit xStr (d # rest))"
| "replace_x_digit xStr s = s"

text \<open>\<open>replace(/x/gi, xStr)\<close>.\<close>

definition replace_x :: "string \<Rightarrow> string \<Rightarrow> string" where
  "replace_x xStr s = concat (map (\<lambda>c. if is_x c then xStr else [c]) s)"

definition is_arith_char :: "char \<Rightarrow> bool" where
  "is_arith_char c = (is_digit c \<or> c \<in> set ''+-*/.%'')"

text \<open>The three replacements on \<open>cleaned\<close>, with \<open>xStr = String(x)\<close>.\<close>

definition substitute_x :: "string \<Rightarrow> string \<Rightarrow> string" where
  "substitute_x xStr cleaned =
     replace_x xStr (replace_x_digit xStr (replace_digit_x xStr cleaned))"

text \<open>The last three lines, on the string \<open>safe\<close>.\<close>

definition evaluate_safe :: "string \<Rightarrow> result" where
  "evaluate_safe safe =
     (if safe = [] \<or> \<not> (\<exists>c \<in> set safe. is_digit c) then NoResult
      else (case evaluate safe of ErrorMarker \<Rightarrow> NoResult | r \<Rightarrow> r))"

definition evaluateWithX :: "string \<Rightarrow> jsnum \<Rightarrow> result" where
  "evaluateWithX expr x =
     (if expr = [] then NoResult
      else evaluate_safe
             (filter is_arith_char
                (substitute_x (Number_toString x)
                   (filter (\<lambda>c. \<not> is_space c) (trim expr)))))"

text \<open>
  The substitution as the specification words it, to compare \<open>evaluateWithX\<close> with:
  every occurrence of the variable is replaced by the text of the value, with a \<open>*\<close>
  between the variable and a digit next to it on either side; then the characters outside
  the arithmetic alphabet are stripped and the string is evaluated, an error marker
  counting as no result. The variable is the letter x in either case, as in the code.
\<close>

definition digit_follows :: "string \<Rightarrow> bool" where
  "digit_follows s = (case s of [] \<Rightarrow> False | c # _ \<Rightarrow> is_digit c)"

fun substitute_spec :: "string \<Rightarrow> bool \<Rightarrow> string \<Rightarrow> string" where
  "substitute_spec xStr after_digit [] = []"
| "substitute_spec xStr after_digit (c # cs) =
     (if is_x c then
        (if after_digit then ''*'' else []) @ xStr @ (if digit_follows cs then ''*'' else [])
          @ substitute_spec xStr False cs
      else c # substitute_spec xStr (is_digit c) cs)"

definition evaluateWithSubstitution_spec :: "string \<Rightarrow> jsnum \<Rightarrow> result" where
  "evaluateWithSubstitution_spec expr x =
     (case evaluate (filter is_arith_char (substitute_spec (Number_toString x) False expr)) of
        ErrorMarker \<Rightarrow> NoResult
      | r \<Rightarrow> r)"

text \<open>An occurrence of the variable directly between two digits.\<close>

fun between_digits :: "string \<Rightarrow> bool" where
  "between_digits (d # c # e # rest) =
     ((is_digit d \<and> is_x c \<and> is_digit e) \<or> between_digits (c # e # rest))"
| "between_digits s = False"

section \<open>Rules for evaluating the definitions on literals\<close>

text \<open>
  The recursive helpers are unfolded on numerals only, and the floor of a rational
  literal is computed by integer division, so that the simplifier evaluates a call of
  the model on a concrete input and stops on anything else.
\<close>

lemma floor_rat_divide_numeral:
  "\<lfloor>numeral a / numeral b :: rat\<rfloor> = numeral a div numeral b"
  by (metis floor_divide_of_int_eq of_int_numeral)

lemma floor_rat_one_divide_numeral:
  "\<lfloor>1 / numeral b :: rat\<rfloor> = 1 div numeral b"
  by (metis floor_divide_of_int_eq of_int_numeral of_int_1)

lemma floor_rat_minus_divide_numeral:
  "\<lfloor>- (numeral a / numeral b) :: rat\<rfloor> = - numeral a div numeral b"
  by (metis floor_divide_of_int_eq of_int_numeral of_int_minus minus_divide_left)

lemma floor_rat_minus_one_divide_numeral:
  "\<lfloor>- (1 / numeral b) :: rat\<rfloor> = - 1 div numeral b"
  by (metis floor_divide_of_int_eq of_int_numeral of_int_minus minus_divide_left of_int_1)

lemma bit_length_numeral:
  "bit_length 0 = 0"
  "bit_length 1 = 1"
  "bit_length (Suc 0) = 1"
  "bit_length (numeral (Num.Bit0 k)) = Suc (bit_length (numeral k))"
  "bit_length (numeral (Num.Bit1 k)) = Suc (bit_length (numeral k))"
proof -
  show "bit_length 0 = 0" "bit_length 1 = 1" "bit_length (Suc 0) = 1"
    by (simp_all add: bit_length.simps)
  have "numeral (Num.Bit0 k) div 2 = (numeral k :: nat)"
    by simp
  then show "bit_length (numeral (Num.Bit0 k)) = Suc (bit_length (numeral k))"
    by (subst bit_length.simps) simp
  have "numeral (Num.Bit1 k) div 2 = (numeral k :: nat)"
    by simp
  then show "bit_length (numeral (Num.Bit1 k)) = Suc (bit_length (numeral k))"
    by (subst bit_length.simps) simp
qed

lemma replicate_numeral:
  "replicate (numeral k) x = x # replicate (pred_numeral k) x"
  by (simp add: numeral_eq_Suc)

lemmas num_defs = round_double_def round_magnitude_def pack_double_def ulp_exponent_def
  floor_log2_def round_half_even_def pow2_def pow10_def is_zero_def is_inf_def signed_inf_def
  signed_zero_def fadd_def fsub_def fmul_def fdiv_def bit_length_numeral
  floor_rat_divide_numeral floor_rat_one_divide_numeral floor_rat_minus_divide_numeral
  floor_rat_minus_one_divide_numeral

lemmas parse_defs = parseFloat_def parse_decimal_def parse_exponent_def decimal_value_def
  signed_value_def split_sign_def digits_val_def digit_val_def is_digit_def is_space_def
  is_num_char_def op_of_char_def percent_follows_def skip_percent_def Let_def

lemma show_nat_numeral:
  "show_nat 0 = ''0''"
  "show_nat 1 = ''1''"
  "show_nat (Suc 0) = ''1''"
  "show_nat (numeral k) =
     (if numeral k < (10::nat) then [digit_char (numeral k)]
      else show_nat (numeral k div 10) @ [digit_char (numeral k mod 10)])"
  by (subst show_nat.simps, simp add: digit_char_def)+

lemma dec_length_numeral:
  "dec_length 0 = 1"
  "dec_length 1 = 1"
  "dec_length (Suc 0) = 1"
  "dec_length (numeral k) =
     (if numeral k < (10::nat) then 1 else Suc (dec_length (numeral k div 10)))"
  by (subst dec_length.simps, simp)+

lemmas str_defs = trim_def radix_digit_def radix_value_def StringToNumber_def digit_char_def
  show_nat_numeral dec_length_numeral floor_log10_def rounds_to_def prefer_low_def digits_at_def
  shortest_digits.simps layout_def positive_toString_def replicate_numeral

lemmas block_defs = ref_digits_def is_operand_char_def ends_with_percent_def resolveDiagramValue_def
  js_plus_def computeDiagramBlock_def store_value_def getDiagramResults_def round10_def

lemmas withx_defs = is_x_def replace_x_def is_arith_char_def substitute_x_def evaluate_safe_def
  evaluateWithX_def digit_follows_def
  evaluateWithSubstitution_spec_def

lemmas eval_defs = evaluate_def tokenize_def nums_of_def ops_of_def finalize_def round10_def combine_def
  percent_adjusted_def splice_def reduce_pass.simps

section \<open>The tokenizer only appends\<close>

lemma tokenize_loop_extends:
  "tokenize_loop s acc = Some ts \<Longrightarrow> \<exists>more. ts = acc @ more"
proof (induction s acc arbitrary: ts rule: tokenize_loop.induct)
  case (1 tokens)
  then show ?case by simp
next
  case (2 c cs tokens)
  show ?case
  proof (cases "op_of_char c")
    case (Some oper)
    with "2.IH"(3) [OF Some] "2.prems" show ?thesis by fastforce
  next
    case None
    show ?thesis
    proof (cases "is_num_char c")
      case False
      with "2.IH"(2) [OF None False] "2.prems" None show ?thesis by simp
    next
      case True
      define rest where "rest = dropWhile is_num_char (c # cs)"
      define n where "n = parseFloat (takeWhile is_num_char (c # cs))"
      from "2.prems" None True have ok: "n \<noteq> NaN"
        by (auto simp: n_def Let_def split: if_splits)
      with "2.prems" None True
      have "tokenize_loop (skip_percent rest) (tokens @ [TNum n (percent_follows rest)]) = Some ts"
        by (simp add: rest_def n_def Let_def)
      with "2.IH"(1) [OF None True refl refl refl] ok n_def rest_def
      show ?thesis by fastforce
    qed
  qed
qed

section \<open>A leading minus sign\<close>

text \<open>
  Claim C9. Every input that begins with \<open>-\<close> evaluates to no result: the sign is
  tokenized as an operator, so the first token is not a number (or tokenization fails
  further on). \<open>"-5"\<close> is such an input, although \<open>parseFloat\<close> reads it as \<open>-5\<close>.
\<close>

theorem evaluate_leading_minus:
  "evaluate (CHR ''-'' # s) = NoResult \<and> parseFloat ''-5'' = Fin (- 5)"
proof
  show "evaluate (CHR ''-'' # s) = NoResult"
  proof (cases "tokenize (CHR ''-'' # s)")
    case None
    then show ?thesis by (simp add: evaluate_def)
  next
    case (Some ts)
    then have "tokenize_loop s [TOp Minus] = Some ts"
      by (simp add: tokenize_def op_of_char_def)
    then obtain more where "ts = TOp Minus # more"
      using tokenize_loop_extends by fastforce
    with Some show ?thesis by (simp add: evaluate_def)
  qed
  show "parseFloat ''-5'' = Fin (- 5)"
    by (simp add: num_defs parse_defs split del: if_split)
qed

theorem evaluate_leading_minus_witness:
  "evaluate ''-5'' = NoResult"
  using evaluate_leading_minus [of "''5''"] by simp


section \<open>The reduction passes\<close>

lemma findIndex_leftmost:
  "\<forall>x\<in>set pre. \<not> P x \<Longrightarrow> P y \<Longrightarrow> findIndex P (pre @ y # post) = Some (length pre)"
  by (induction pre) simp_all

lemma findIndex_None: "findIndex P xs = None \<longleftrightarrow> (\<forall>x\<in>set xs. \<not> P x)"
  by (induction xs) auto

lemma findIndex_Some:
  "findIndex P xs = Some i \<Longrightarrow>
     i < length xs \<and> P (xs ! i) \<and> (\<forall>x\<in>set (take i xs). \<not> P x)"
proof (induction xs arbitrary: i)
  case Nil
  then show ?case by simp
next
  case (Cons x xs)
  show ?case
  proof (cases "P x")
    case True
    with Cons.prems show ?thesis by simp
  next
    case False
    with Cons.prems obtain j where j: "findIndex P xs = Some j" "i = Suc j"
      by auto
    from Cons.IH [OF j(1)] False j(2) show ?thesis by simp
  qed
qed

lemma reduce_pass_leftmost:
  assumes "\<forall>o'\<in>set pre. o' \<notin> set priority" and "oper \<in> set priority"
    and "length nums = length pre + length post + 2"
  shows "reduce_pass priority nums (pre @ oper # post) =
     (case combine (nums ! length pre) oper (nums ! (length pre + 1)) of
        None \<Rightarrow> DivByZero
      | Some r \<Rightarrow>
          reduce_pass priority
            (take (length pre) nums @ \<lparr>num_value = r, isPercent = False\<rparr> # drop (length pre + 2) nums)
            (pre @ post))"
proof -
  have "findIndex (\<lambda>o'. o' \<in> set priority) (pre @ oper # post) = Some (length pre)"
    using assms(1,2) by (intro findIndex_leftmost) auto
  with assms(3) show ?thesis
    by (subst reduce_pass.simps) (simp add: splice_def nth_append split: option.splits)
qed

lemma reduce_pass_Reduced:
  "reduce_pass priority nums ops = Reduced nums' ops' \<Longrightarrow> length nums = length ops + 1 \<Longrightarrow>
     ops' = filter (\<lambda>o'. o' \<notin> set priority) ops \<and> length nums' = length ops' + 1"
proof (induction priority nums ops rule: reduce_pass.induct)
  case (1 priority nums ops)
  show ?case
  proof (cases "findIndex (\<lambda>o'. o' \<in> set priority) ops")
    case None
    then have "filter (\<lambda>o'. o' \<notin> set priority) ops = ops"
      by (simp add: findIndex_None)
    with 1 None show ?thesis
      by (subst (asm) reduce_pass.simps) simp
  next
    case (Some idx)
    from findIndex_Some [OF Some]
    have idx: "idx < length ops" "ops ! idx \<in> set priority"
      "\<forall>x\<in>set (take idx ops). x \<notin> set priority" by auto
    with "1.prems"(2) have lt: "idx + 1 < length nums" by simp
    from "1.prems"(1) Some lt obtain r where
      r: "combine (nums ! idx) (ops ! idx) (nums ! (idx + 1)) = Some r"
      and rec: "reduce_pass priority (splice nums idx 2 [\<lparr>num_value = r, isPercent = False\<rparr>])
                  (splice ops idx 1 []) = Reduced nums' ops'"
      by (subst (asm) reduce_pass.simps) (auto split: option.splits)
    have len: "length (splice nums idx 2 [\<lparr>num_value = r, isPercent = False\<rparr>])
         = length (splice ops idx 1 []) + 1"
      using idx(1) lt "1.prems"(2) by (simp add: splice_def)
    from "1.IH" [OF Some _ r rec len] lt
    have "ops' = filter (\<lambda>o'. o' \<notin> set priority) (splice ops idx 1 [])"
      and l': "length nums' = length ops' + 1" by simp_all
    moreover have "filter (\<lambda>o'. o' \<notin> set priority) (splice ops idx 1 [])
        = filter (\<lambda>o'. o' \<notin> set priority) ops"
    proof -
      have "ops = take idx ops @ ops ! idx # drop (Suc idx) ops"
        using idx(1) by (simp add: id_take_nth_drop)
      then have "filter (\<lambda>o'. o' \<notin> set priority) ops
          = filter (\<lambda>o'. o' \<notin> set priority) (take idx ops)
            @ filter (\<lambda>o'. o' \<notin> set priority) (drop (Suc idx) ops)"
        using idx(2) by (metis filter.simps(2) filter_append)
      then show ?thesis by (simp add: splice_def)
    qed
    ultimately show ?thesis by simp
  qed
qed

lemma reduce_pass_no_throw:
  "length nums = length ops + 1 \<Longrightarrow> reduce_pass priority nums ops \<noteq> TypeError"
proof (induction priority nums ops rule: reduce_pass.induct)
  case (1 priority nums ops)
  show ?case
  proof (cases "findIndex (\<lambda>o'. o' \<in> set priority) ops")
    case None
    then show ?thesis by (subst reduce_pass.simps) simp
  next
    case (Some idx)
    from findIndex_Some [OF Some] have idx: "idx < length ops" by simp
    with "1.prems" have lt: "idx + 1 < length nums" by simp
    show ?thesis
    proof (cases "combine (nums ! idx) (ops ! idx) (nums ! (idx + 1))")
      case None
      with Some lt show ?thesis by (subst reduce_pass.simps) simp
    next
      case (Some r)
      have len: "length (splice nums idx 2 [\<lparr>num_value = r, isPercent = False\<rparr>])
           = length (splice ops idx 1 []) + 1"
        using idx lt "1.prems" by (simp add: splice_def)
      from "1.IH" [OF \<open>findIndex _ ops = Some idx\<close> lt Some len] Some lt
        \<open>findIndex _ ops = Some idx\<close>
      show ?thesis by (subst reduce_pass.simps) simp
    qed
  qed
qed

text \<open>No input makes \<open>evaluate\<close> throw: the operands a pass reads are there.\<close>

lemma evaluate_no_throw: "evaluate s \<noteq> Threw"
proof (cases "tokenize s")
  case None
  then show ?thesis by (simp add: evaluate_def)
next
  case (Some tokens)
  show ?thesis
  proof (cases "\<exists>v p t more. tokens = TNum v p # t # more")
    case False
    with Some show ?thesis
      by (auto simp: evaluate_def split: list.splits token.splits)
  next
    case True
    then obtain v p t more where tokens: "tokens = TNum v p # t # more"
      by blast
    let ?nums = "nums_of tokens" and ?ops = "ops_of tokens"
    show ?thesis
    proof (cases "int (length ?ops) \<noteq> int (length ?nums) - 1")
      case True
      with Some tokens show ?thesis by (simp add: evaluate_def Let_def)
    next
      case False
      have "?nums \<noteq> []"
        using tokens by (simp add: nums_of_def)
      with False have shape: "length ?nums = length ?ops + 1"
        by (cases ?nums) auto
      show ?thesis
      proof (cases "reduce_pass [Times, Divide] ?nums ?ops")
        case DivByZero
        with Some tokens False show ?thesis by (simp add: evaluate_def Let_def)
      next
        case TypeError
        with reduce_pass_no_throw [OF shape] show ?thesis by simp
      next
        case (Reduced mid_nums mid_ops)
        from reduce_pass_Reduced [OF Reduced shape]
        have mid: "length mid_nums = length mid_ops + 1" by simp
        show ?thesis
        proof (cases "reduce_pass [Plus, Minus] mid_nums mid_ops")
          case DivByZero
          with Some tokens False Reduced show ?thesis
            by (simp add: evaluate_def Let_def)
        next
          case TypeError
          with reduce_pass_no_throw [OF mid] show ?thesis by simp
        next
          case inner: (Reduced out_nums out_ops)
          from reduce_pass_Reduced [OF inner mid] have "out_nums \<noteq> []"
            by auto
          with Some tokens False Reduced inner show ?thesis
            by (auto simp: evaluate_def Let_def finalize_def split: list.splits)
        qed
      qed
    qed
  qed
qed

lemmas evaluate_rules = num_defs parse_defs eval_defs

section \<open>Percent operands\<close>

text \<open>
  Claim C5. When \<open>evaluate\<close> combines \<open>a\<close> and \<open>b\<close> under \<open>+\<close> or \<open>-\<close> and \<open>b\<close> carries
  the percent flag, the right-hand contribution is the value of \<open>a\<close> times \<open>b / 100\<close>,
  where the value of \<open>a\<close> is \<open>a / 100\<close> if \<open>a\<close> carries the flag itself. So
  \<open>"100+8%"\<close> is 108, \<open>"100-8%"\<close> is 92 and \<open>"50%"\<close> is 0.5.
\<close>

theorem percent_of_left_operand:
  "(isPercent b \<longrightarrow>
      combine a Plus b =
        Some (fadd (percent_adjusted a)
                (fmul (percent_adjusted a) (fdiv (num_value b) (Fin 100))))
      \<and> combine a Minus b =
        Some (fsub (percent_adjusted a)
                (fmul (percent_adjusted a) (fdiv (num_value b) (Fin 100)))))
   \<and> percent_adjusted a = (if isPercent a then fdiv (num_value a) (Fin 100) else num_value a)
   \<and> evaluate ''100+8%'' = Number (Fin 108)
   \<and> evaluate ''100-8%'' = Number (Fin 92)
   \<and> evaluate ''50%'' = Number (Fin (1 / 2))"
proof (intro conjI impI)
  assume "isPercent b"
  then show "combine a Plus b =
      Some (fadd (percent_adjusted a) (fmul (percent_adjusted a) (fdiv (num_value b) (Fin 100))))"
    by (simp add: combine_def Let_def)
  from \<open>isPercent b\<close> show "combine a Minus b =
      Some (fsub (percent_adjusted a) (fmul (percent_adjusted a) (fdiv (num_value b) (Fin 100))))"
    by (simp add: combine_def Let_def)
next
  show "percent_adjusted a = (if isPercent a then fdiv (num_value a) (Fin 100) else num_value a)"
    by (simp add: percent_adjusted_def)
  show "evaluate ''100+8%'' = Number (Fin 108)"
    by (simp add: evaluate_rules split del: if_split)
  show "evaluate ''100-8%'' = Number (Fin 92)"
    by (simp add: evaluate_rules split del: if_split)
  show "evaluate ''50%'' = Number (Fin (1 / 2))"
    by (simp add: evaluate_rules split del: if_split)
qed

theorem percent_of_left_operand_witness:
  "isPercent \<lparr>num_value = Fin 8, isPercent = True\<rparr>
   \<and> combine \<lparr>num_value = Fin 100, isPercent = False\<rparr> Plus
         \<lparr>num_value = Fin 8, isPercent = True\<rparr> = Some (Fin 108)
   \<and> combine \<lparr>num_value = Fin 100, isPercent = False\<rparr> Minus
         \<lparr>num_value = Fin 8, isPercent = True\<rparr> = Some (Fin 92)"
  using percent_of_left_operand
    [of "\<lparr>num_value = Fin 8, isPercent = True\<rparr>" "\<lparr>num_value = Fin 100, isPercent = False\<rparr>"]
  by (simp add: percent_adjusted_def num_defs split del: if_split)

section \<open>Two passes, leftmost operator first\<close>

text \<open>
  Claim C6. \<open>evaluate\<close> reduces in two passes. A pass combines the operands of the
  leftmost operator of its priority and puts the result, without a percent flag, in
  their place; it ends when no operator of its priority is left. The first pass takes
  \<open>*\<close> and \<open>/\<close>, the second \<open>+\<close> and \<open>-\<close>, after which one operand is left. So
  \<open>"2+3*4"\<close> is 14, \<open>"2*3+4"\<close> is 10 and \<open>"20/4/5"\<close> is 1.
\<close>

theorem two_pass_reduction:
  "((\<forall>o'\<in>set pre. o' \<notin> set priority) \<and> oper \<in> set priority
      \<and> length nums = length pre + length post + 2 \<longrightarrow>
     reduce_pass priority nums (pre @ oper # post) =
       (case combine (nums ! length pre) oper (nums ! (length pre + 1)) of
          None \<Rightarrow> DivByZero
        | Some r \<Rightarrow>
            reduce_pass priority
              (take (length pre) nums @ \<lparr>num_value = r, isPercent = False\<rparr>
                 # drop (length pre + 2) nums)
              (pre @ post)))
   \<and> (length nums = length ops + 1
        \<and> reduce_pass [Times, Divide] nums ops = Reduced mid_nums mid_ops \<longrightarrow>
      mid_ops = filter (\<lambda>o'. o' = Plus \<or> o' = Minus) ops \<and> length mid_nums = length mid_ops + 1)
   \<and> (length mid_nums = length mid_ops + 1 \<and> set mid_ops \<subseteq> {Plus, Minus}
        \<and> reduce_pass [Plus, Minus] mid_nums mid_ops = Reduced out_nums out_ops \<longrightarrow>
      out_ops = [] \<and> length out_nums = 1)
   \<and> evaluate ''2+3*4'' = Number (Fin 14)
   \<and> evaluate ''2*3+4'' = Number (Fin 10)
   \<and> evaluate ''20/4/5'' = Number (Fin 1)"
proof (intro conjI impI)
  assume "(\<forall>o'\<in>set pre. o' \<notin> set priority) \<and> oper \<in> set priority
      \<and> length nums = length pre + length post + 2"
  then show "reduce_pass priority nums (pre @ oper # post) =
       (case combine (nums ! length pre) oper (nums ! (length pre + 1)) of
          None \<Rightarrow> DivByZero
        | Some r \<Rightarrow>
            reduce_pass priority
              (take (length pre) nums @ \<lparr>num_value = r, isPercent = False\<rparr>
                 # drop (length pre + 2) nums)
              (pre @ post))"
    using reduce_pass_leftmost by blast
next
  assume a: "length nums = length ops + 1
        \<and> reduce_pass [Times, Divide] nums ops = Reduced mid_nums mid_ops"
  have "(o' \<notin> set [Times, Divide]) = (o' = Plus \<or> o' = Minus)" for o'
    by (cases o') simp_all
  with reduce_pass_Reduced [of "[Times, Divide]" nums ops mid_nums mid_ops] a
  show "mid_ops = filter (\<lambda>o'. o' = Plus \<or> o' = Minus) ops" "length mid_nums = length mid_ops + 1"
    by simp_all
next
  assume a: "length mid_nums = length mid_ops + 1 \<and> set mid_ops \<subseteq> {Plus, Minus}
        \<and> reduce_pass [Plus, Minus] mid_nums mid_ops = Reduced out_nums out_ops"
  then have "filter (\<lambda>o'. o' \<notin> set [Plus, Minus]) mid_ops = []"
    by (auto simp: filter_empty_conv)
  with reduce_pass_Reduced [of "[Plus, Minus]" mid_nums mid_ops out_nums out_ops] a
  show "out_ops = []" "length out_nums = 1"
    by simp_all
next
  show "evaluate ''2+3*4'' = Number (Fin 14)"
    by (simp add: evaluate_rules split del: if_split)
  show "evaluate ''2*3+4'' = Number (Fin 10)"
    by (simp add: evaluate_rules split del: if_split)
  show "evaluate ''20/4/5'' = Number (Fin 1)"
    by (simp add: evaluate_rules split del: if_split)
qed

theorem two_pass_reduction_witness:
  "Plus \<notin> set [Times, Divide] \<and> Times \<in> set [Times, Divide]
   \<and> length [\<lparr>num_value = Fin 2, isPercent = False\<rparr>, \<lparr>num_value = Fin 3, isPercent = False\<rparr>,
         \<lparr>num_value = Fin 4, isPercent = False\<rparr>] = length [Plus] + length ([] :: opsym list) + 2
   \<and> reduce_pass [Times, Divide]
         [\<lparr>num_value = Fin 2, isPercent = False\<rparr>, \<lparr>num_value = Fin 3, isPercent = False\<rparr>,
          \<lparr>num_value = Fin 4, isPercent = False\<rparr>] [Plus, Times]
       = Reduced [\<lparr>num_value = Fin 2, isPercent = False\<rparr>, \<lparr>num_value = Fin 12, isPercent = False\<rparr>]
           [Plus]
   \<and> set [Plus] \<subseteq> {Plus, Minus}
   \<and> reduce_pass [Plus, Minus]
         [\<lparr>num_value = Fin 2, isPercent = False\<rparr>, \<lparr>num_value = Fin 12, isPercent = False\<rparr>] [Plus]
       = Reduced [\<lparr>num_value = Fin 14, isPercent = False\<rparr>] []"
  using two_pass_reduction
    [where pre = "[Plus]" and priority = "[Times, Divide]" and oper = Times and post = "[]"
       and nums = "[\<lparr>num_value = Fin 2, isPercent = False\<rparr>, \<lparr>num_value = Fin 3, isPercent = False\<rparr>,
                    \<lparr>num_value = Fin 4, isPercent = False\<rparr>]"
       and ops = "[Plus, Times]"
       and mid_nums = "[\<lparr>num_value = Fin 2, isPercent = False\<rparr>, \<lparr>num_value = Fin 12, isPercent = False\<rparr>]"
       and mid_ops = "[Plus]"
       and out_nums = "[\<lparr>num_value = Fin 14, isPercent = False\<rparr>]" and out_ops = "[]"]
  by (simp add: evaluate_rules split del: if_split)

section \<open>A single number\<close>

text \<open>
  Claim C10. An input that tokenizes to exactly one number token evaluates to the value
  of the token, divided by 100 if it carries the percent flag, and is not rounded to ten
  decimal places as a result of the reduction is. So \<open>"0.00000000004"\<close> evaluates to
  the double nearest to \<open>4e-11\<close>, while \<open>"0+0.00000000004"\<close> evaluates to 0.
\<close>

theorem single_number_not_rounded:
  "(tokenize s = Some [TNum v p] \<longrightarrow>
      evaluate s = Number (if p then fdiv v (Fin 100) else v))
   \<and> evaluate ''0.00000000004'' = Number (round_double (4 / 10 ^ 11))
   \<and> round_double (4 / 10 ^ 11) = Fin (6189700196426901 / 2 ^ 87)
   \<and> evaluate ''0+0.00000000004'' = Number (Fin 0)"
proof (intro conjI impI)
  assume "tokenize s = Some [TNum v p]"
  then show "evaluate s = Number (if p then fdiv v (Fin 100) else v)"
    by (simp add: evaluate_def)
next
  show "evaluate ''0.00000000004'' = Number (round_double (4 / 10 ^ 11))"
    by (simp add: evaluate_rules split del: if_split)
  show "round_double (4 / 10 ^ 11) = Fin (6189700196426901 / 2 ^ 87)"
    by (simp add: num_defs split del: if_split)
  show "evaluate ''0+0.00000000004'' = Number (Fin 0)"
    by (simp add: evaluate_rules split del: if_split)
qed

theorem single_number_not_rounded_witness:
  "tokenize ''50%'' = Some [TNum (Fin 50) True] \<and> evaluate ''50%'' = Number (Fin (1 / 2))"
proof -
  have t: "tokenize ''50%'' = Some [TNum (Fin 50) True]"
    by (simp add: evaluate_rules split del: if_split)
  from single_number_not_rounded [of "''50%''" "Fin 50" True] t
  have "evaluate ''50%'' = Number (fdiv (Fin 50) (Fin 100))"
    by simp
  with t show ?thesis
    by (simp add: num_defs split del: if_split)
qed


section \<open>When tokenization fails\<close>

lemma round_double_not_NaN: "round_double q \<noteq> NaN"
  by (simp add: round_double_def round_magnitude_def pack_double_def)

lemma signed_value_not_NaN: "signed_value neg m \<noteq> NaN"
  by (simp add: signed_value_def signed_zero_def round_double_not_NaN)

lemma digit_not_point: "is_digit c \<Longrightarrow> c \<noteq> CHR ''.''"
  by (auto simp: is_digit_def)

lemma num_char_plain:
  "is_num_char c \<Longrightarrow> \<not> is_space c \<and> c \<noteq> CHR ''-'' \<and> c \<noteq> CHR ''+'' \<and> c \<noteq> CHR ''I''"
  by (auto simp: is_num_char_def is_digit_def is_space_def)

lemma parse_decimal_numeral:
  assumes "is_num_char c" and "\<forall>d\<in>set cs. is_num_char d"
  shows "parse_decimal (c # cs) = None \<longleftrightarrow>
     c = CHR ''.'' \<and> (case cs of [] \<Rightarrow> True | d # _ \<Rightarrow> d = CHR ''.'')"
proof (cases "is_digit c")
  case True
  with num_char_plain [OF assms(1)] digit_not_point [OF True] show ?thesis
    by (simp add: parse_decimal_def split_sign_def Let_def split: prod.splits)
next
  case False
  with assms(1) have c: "c = CHR ''.''"
    by (simp add: is_num_char_def)
  show ?thesis
  proof (cases cs)
    case Nil
    with c False show ?thesis
      by (simp add: parse_decimal_def split_sign_def Let_def)
  next
    case (Cons d ds)
    with assms(2) have "is_digit d \<or> d = CHR ''.''"
      by (simp add: is_num_char_def)
    with c False Cons digit_not_point [of d] show ?thesis
      by (auto simp: parse_decimal_def split_sign_def Let_def split: prod.splits)
  qed
qed

lemma parse_decimal_not_NaN:
  assumes "is_num_char c" and "parse_decimal (c # cs) = Some (v, rest)"
  shows "v \<noteq> NaN"
  using assms num_char_plain [OF assms(1)]
  by (auto simp: parse_decimal_def split_sign_def Let_def decimal_value_def signed_value_not_NaN
      split: prod.splits if_splits)

lemma parseFloat_numeral_NaN:
  assumes "is_num_char c" and "\<forall>d\<in>set cs. is_num_char d"
  shows "parseFloat (c # cs) = NaN \<longleftrightarrow>
     c = CHR ''.'' \<and> (case cs of [] \<Rightarrow> True | d # _ \<Rightarrow> d = CHR ''.'')"
proof -
  have "dropWhile is_space (c # cs) = c # cs"
    using num_char_plain [OF assms(1)] by simp
  then have "parseFloat (c # cs) = NaN \<longleftrightarrow> parse_decimal (c # cs) = None"
    using parse_decimal_not_NaN [OF assms(1)]
    by (auto simp: parseFloat_def split: option.splits)
  with parse_decimal_numeral [OF assms] show ?thesis by simp
qed

lemma tokenize_loop_None:
  "tokenize_loop s acc = None \<longleftrightarrow> (\<exists>num\<in>set (numerals s). parseFloat num = NaN)"
proof (induction s acc rule: tokenize_loop.induct)
  case (1 tokens)
  show ?case by simp
next
  case (2 c cs tokens)
  show ?case
  proof (cases "op_of_char c")
    case (Some oper)
    with "2.IH"(3) [OF Some] show ?thesis by simp
  next
    case None
    show ?thesis
    proof (cases "is_num_char c")
      case False
      with "2.IH"(2) [OF None False] None show ?thesis by simp
    next
      case True
      show ?thesis
      proof (cases "parseFloat (takeWhile is_num_char (c # cs)) = NaN")
        case nan: True
        with None True show ?thesis by (simp add: Let_def)
      next
        case False
        with "2.IH"(1) [OF None True refl refl refl False] None True
        show ?thesis by (simp add: Let_def)
      qed
    qed
  qed
qed

lemma numerals_shape:
  "num \<in> set (numerals s) \<Longrightarrow> \<exists>c cs. num = c # cs \<and> is_num_char c \<and> (\<forall>d\<in>set cs. is_num_char d)"
proof (induction s rule: numerals.induct)
  case 1
  then show ?case by simp
next
  case (2 c cs)
  show ?case
  proof (cases "op_of_char c")
    case (Some oper)
    with 2 show ?thesis by simp
  next
    case None
    show ?thesis
    proof (cases "is_num_char c")
      case False
      with 2 None show ?thesis by simp
    next
      case True
      with "2.prems" None
      consider "num = c # takeWhile is_num_char cs"
        | "num \<in> set (numerals (skip_percent (dropWhile is_num_char (c # cs))))"
        by auto
      then show ?thesis
      proof cases
        case 1
        with True show ?thesis
          by (auto dest: set_takeWhileD)
      next
        case 2
        with "2.IH"(1) [OF None True] show ?thesis by simp
      qed
    qed
  qed
qed

lemma evaluate_NoResult_iff:
  "evaluate s = NoResult \<longleftrightarrow>
     (case tokenize s of
        None \<Rightarrow> True
      | Some tokens \<Rightarrow>
          tokens = [] \<or> (\<exists>oper more. tokens = TOp oper # more)
          \<or> int (length (ops_of tokens)) \<noteq> int (length (nums_of tokens)) - 1)"
proof (cases "tokenize s")
  case None
  then show ?thesis by (simp add: evaluate_def)
next
  case (Some tokens)
  show ?thesis
  proof (cases tokens)
    case Nil
    with Some show ?thesis by (simp add: evaluate_def)
  next
    case (Cons t more)
    show ?thesis
    proof (cases t)
      case (TOp oper)
      with Some Cons show ?thesis by (simp add: evaluate_def)
    next
      case (TNum v p)
      show ?thesis
      proof (cases more)
        case Nil
        with Some Cons TNum show ?thesis
          by (simp add: evaluate_def nums_of_def ops_of_def)
      next
        case (Cons t' more')
        with Some \<open>tokens = t # more\<close> TNum show ?thesis
          by (auto simp: evaluate_def finalize_def Let_def
              split: pass_result.splits list.splits)
      qed
    qed
  qed
qed

lemma parseFloat_overlong:
  "parseFloat (CHR ''1'' # replicate 309 (CHR ''0'')) = PInf"
  by (simp add: num_defs parse_defs replicate_numeral split del: if_split)

lemma tokenize_overlong:
  "tokenize (CHR ''1'' # replicate 309 (CHR ''0'')) = Some [TNum PInf False]"
  by (simp add: evaluate_rules replicate_numeral split del: if_split)

section \<open>No result\<close>

text \<open>
  Claim C4, as the code has it. \<open>evaluate\<close> returns no result exactly when tokenization
  fails, or there is no token, or the first token is an operator, or the number of
  operators is not the number of numbers minus one. Tokenization fails exactly when
  \<open>parseFloat\<close> gives NaN for one of the accumulated numerals, which are the numerals
  that are a lone point or begin with two points. The empty string and \<open>"abc"\<close> have no
  result, and \<open>".."\<close> fails to tokenize.
\<close>

theorem no_result_cases:
  "(evaluate s = NoResult \<longleftrightarrow>
      (case tokenize s of
         None \<Rightarrow> True
       | Some tokens \<Rightarrow>
           tokens = [] \<or> (\<exists>oper more. tokens = TOp oper # more)
           \<or> int (length (ops_of tokens)) \<noteq> int (length (nums_of tokens)) - 1))
   \<and> (tokenize s = None \<longleftrightarrow> (\<exists>num\<in>set (numerals s). parseFloat num = NaN))
   \<and> (\<forall>num\<in>set (numerals s). parseFloat num = NaN \<longleftrightarrow> num = ''.'' \<or> prefix ''..'' num)
   \<and> evaluate [] = NoResult
   \<and> evaluate ''abc'' = NoResult
   \<and> tokenize ''..'' = None"
proof (intro conjI ballI)
  show "evaluate s = NoResult \<longleftrightarrow>
      (case tokenize s of
         None \<Rightarrow> True
       | Some tokens \<Rightarrow>
           tokens = [] \<or> (\<exists>oper more. tokens = TOp oper # more)
           \<or> int (length (ops_of tokens)) \<noteq> int (length (nums_of tokens)) - 1)"
    by (rule evaluate_NoResult_iff)
  show "tokenize s = None \<longleftrightarrow> (\<exists>num\<in>set (numerals s). parseFloat num = NaN)"
    unfolding tokenize_def by (rule tokenize_loop_None)
next
  fix num
  assume "num \<in> set (numerals s)"
  then obtain c cs where num: "num = c # cs" "is_num_char c" "\<forall>d\<in>set cs. is_num_char d"
    using numerals_shape by blast
  from parseFloat_numeral_NaN [OF num(2,3)] num(1)
  show "parseFloat num = NaN \<longleftrightarrow> num = ''.'' \<or> prefix ''..'' num"
    by (cases cs) auto
next
  show "evaluate [] = NoResult"
    by (simp add: evaluate_def tokenize_def)
  show "evaluate ''abc'' = NoResult"
    by (simp add: evaluate_rules split del: if_split)
  show "tokenize ''..'' = None"
    by (simp add: evaluate_rules split del: if_split)
qed

theorem no_result_cases_witness:
  "''..'' \<in> set (numerals ''1+..'') \<and> parseFloat ''..'' = NaN
   \<and> tokenize ''1+..'' = None \<and> evaluate ''1+..'' = NoResult"
proof -
  have n: "numerals ''1+..'' = [''1'', ''..'']"
    by (simp add: parse_defs split del: if_split)
  have p: "prefix ''..'' ''..''"
    by simp
  from no_result_cases [of "''1+..''"] n p
  have "parseFloat ''..'' = NaN" and "tokenize ''1+..'' = None"
    by simp_all
  with no_result_cases [of "''1+..''"] n show ?thesis
    by simp
qed

text \<open>
  The claim as stated has tokenization fail whenever a numeral does not parse as a finite
  float. A numeral of 310 digits parses as \<open>Infinity\<close>, which is no NaN: it is
  tokenized, and the input has a result.
\<close>

theorem overlong_numeral_is_tokenized:
  "parseFloat (CHR ''1'' # replicate 309 (CHR ''0'')) = PInf
   \<and> tokenize (CHR ''1'' # replicate 309 (CHR ''0'')) = Some [TNum PInf False]
   \<and> evaluate (CHR ''1'' # replicate 309 (CHR ''0'')) \<noteq> NoResult"
  by (simp add: parseFloat_overlong tokenize_overlong evaluate_def)

section \<open>The error marker and infinite results\<close>

text \<open>
  Claim C3 has \<open>evaluate\<close> never return a number that is not finite. On the input of
  a one followed by 309 zeros the only token is \<open>Infinity\<close>, and the single-number
  path returns it as a number. With two tokens, \<open>1e300 + 0\<close> passes the test for a
  finite result and overflows in the rounding that follows.
\<close>

theorem evaluate_returns_infinity:
  "evaluate (CHR ''1'' # replicate 309 (CHR ''0'')) = Number PInf
   \<and> evaluate (CHR ''1'' # replicate 300 (CHR ''0'') @ ''+0'') = Number PInf"
proof
  show "evaluate (CHR ''1'' # replicate 309 (CHR ''0'')) = Number PInf"
    by (simp add: tokenize_overlong evaluate_def)
  show "evaluate (CHR ''1'' # replicate 300 (CHR ''0'') @ ''+0'') = Number PInf"
    by (simp add: evaluate_rules replicate_numeral split del: if_split)
qed


section \<open>The results of the diagram blocks\<close>

lemma results_loop_append:
  "\<exists>more. results_loop bs acc = acc @ more \<and> length more = length bs"
proof (induction bs arbitrary: acc)
  case Nil
  then show ?case by simp
next
  case (Cons b bs)
  from Cons [of "acc @ [store_value (computeDiagramBlock b acc)]"]
  show ?case by auto
qed

lemma results_loop_length: "length (results_loop bs acc) = length acc + length bs"
  using results_loop_append [of bs acc] by auto

lemma results_loop_take: "take (length acc) (results_loop bs acc) = acc"
  using results_loop_append [of bs acc] by auto

lemma results_loop_nth:
  "i < length bs \<Longrightarrow>
     results_loop bs acc ! (length acc + i) =
       store_value (computeDiagramBlock (bs ! i) (take (length acc + i) (results_loop bs acc)))"
proof (induction bs arbitrary: acc i)
  case Nil
  then show ?case by simp
next
  case (Cons b bs)
  let ?v = "store_value (computeDiagramBlock b acc)"
  show ?case
  proof (cases i)
    case 0
    obtain more where more: "results_loop bs (acc @ [?v]) = (acc @ [?v]) @ more"
      using results_loop_append by blast
    then have "results_loop (b # bs) acc ! length acc = ?v"
      by (simp add: nth_append)
    moreover from more have "take (length acc) (results_loop (b # bs) acc) = acc"
      by simp
    ultimately show ?thesis using 0 by simp
  next
    case (Suc j)
    with Cons.prems have "j < length bs" by simp
    from Cons.IH [OF this, of "acc @ [?v]"] Suc show ?thesis by simp
  qed
qed

lemma resolve_reference_out_of_reach:
  assumes "ref_digits (trim str) = Some ds"
    and "digits_val ds = 0 \<or> length results < digits_val ds"
  shows "resolveDiagramValue str results = JNull"
  using assms by (auto simp: resolveDiagramValue_def Let_def)

lemma compute_null_operand:
  "resolveDiagramValue (left b) results = JNull \<or> resolveDiagramValue (right b) results = JNull
     \<Longrightarrow> computeDiagramBlock b results = JNull"
  by (auto simp: computeDiagramBlock_def Let_def)

lemmas block_rules = num_defs parse_defs str_defs block_defs

lemmas withx_rules = num_defs parse_defs str_defs eval_defs withx_defs

section \<open>Recomputing the blocks in order\<close>

text \<open>
  Claim C7. \<open>getDiagramResults\<close> gives one result per block. The result at position
  \<open>i\<close> is computed from block \<open>i\<close> and the results before it, and a number is rounded
  to ten decimal places when it is stored. A reference \<open>#k\<close> with \<open>k\<close> above the number
  of results so far (the block's own position, a later one, or one out of range) or with
  \<open>k = 0\<close> resolves to \<open>null\<close>, and so does the block. The function is total: no
  operation of the loop can throw on string fields, and the loop runs once per block.
  The blocks \<open>5 * 20\<close>, \<open>#1 + 30\<close>, \<open>#2 - 15\<close> give 100, 130, 115.
\<close>

theorem results_in_list_order:
  "length (getDiagramResults blocks) = length blocks
   \<and> (i < length blocks \<longrightarrow>
        getDiagramResults blocks ! i =
          store_value (computeDiagramBlock (blocks ! i) (take i (getDiagramResults blocks))))
   \<and> store_value (JNum n) = JNum (round10 n)
   \<and> (ref_digits (trim str) = Some ks \<and> (digits_val ks = 0 \<or> length results < digits_val ks)
        \<longrightarrow> resolveDiagramValue str results = JNull)
   \<and> (i < length blocks
        \<and> (ref_digits (trim (left (blocks ! i))) = Some ds
             \<or> ref_digits (trim (right (blocks ! i))) = Some ds)
        \<and> i < digits_val ds
        \<longrightarrow> getDiagramResults blocks ! i = JNull)
   \<and> getDiagramResults
         [\<lparr>block_id = 1, left = ''5'', op = ''*'', right = ''20''\<rparr>,
          \<lparr>block_id = 2, left = ''#1'', op = ''+'', right = ''30''\<rparr>,
          \<lparr>block_id = 3, left = ''#2'', op = ''-'', right = ''15''\<rparr>]
       = [JNum (Fin 100), JNum (Fin 130), JNum (Fin 115)]"
proof (intro conjI impI)
  show len: "length (getDiagramResults blocks) = length blocks"
    by (simp add: getDiagramResults_def results_loop_length)
  show "store_value (JNum n) = JNum (round10 n)"
    by (simp add: store_value_def)
  have nth: "getDiagramResults blocks ! i =
      store_value (computeDiagramBlock (blocks ! i) (take i (getDiagramResults blocks)))"
    if "i < length blocks"
    using results_loop_nth [OF that, of "[]"] by (simp add: getDiagramResults_def)
  then show "i < length blocks \<Longrightarrow> getDiagramResults blocks ! i =
      store_value (computeDiagramBlock (blocks ! i) (take i (getDiagramResults blocks)))" .
  {
    assume a: "i < length blocks
        \<and> (ref_digits (trim (left (blocks ! i))) = Some ds
             \<or> ref_digits (trim (right (blocks ! i))) = Some ds)
        \<and> i < digits_val ds"
    let ?prior = "take i (getDiagramResults blocks)"
    from a len have "length ?prior < digits_val ds"
      by simp
    with a have "resolveDiagramValue (left (blocks ! i)) ?prior = JNull
        \<or> resolveDiagramValue (right (blocks ! i)) ?prior = JNull"
      using resolve_reference_out_of_reach by blast
    then have "computeDiagramBlock (blocks ! i) ?prior = JNull"
      by (rule compute_null_operand)
    with nth a show "getDiagramResults blocks ! i = JNull"
      by (simp add: store_value_def)
  }
next
  assume "ref_digits (trim str) = Some ks
      \<and> (digits_val ks = 0 \<or> length results < digits_val ks)"
  then show "resolveDiagramValue str results = JNull"
    using resolve_reference_out_of_reach by blast
next
  show "getDiagramResults
         [\<lparr>block_id = 1, left = ''5'', op = ''*'', right = ''20''\<rparr>,
          \<lparr>block_id = 2, left = ''#1'', op = ''+'', right = ''30''\<rparr>,
          \<lparr>block_id = 3, left = ''#2'', op = ''-'', right = ''15''\<rparr>]
       = [JNum (Fin 100), JNum (Fin 130), JNum (Fin 115)]"
    by (simp add: block_rules split del: if_split)
qed

theorem results_in_list_order_witness:
  "(1::nat) < length [\<lparr>block_id = 1, left = ''5'', op = ''*'', right = ''20''\<rparr>,
                      \<lparr>block_id = 2, left = ''#2'', op = ''+'', right = ''30''\<rparr>]
   \<and> ref_digits (trim ''#2'') = Some ''2'' \<and> 1 < digits_val ''2''
   \<and> length [JNum (Fin 100)] < digits_val ''2''
   \<and> resolveDiagramValue ''#2'' [JNum (Fin 100)] = JNull
   \<and> getDiagramResults [\<lparr>block_id = 1, left = ''5'', op = ''*'', right = ''20''\<rparr>,
                          \<lparr>block_id = 2, left = ''#2'', op = ''+'', right = ''30''\<rparr>] ! 1 = JNull"
proof -
  note t = results_in_list_order
    [where blocks = "[\<lparr>block_id = 1, left = ''5'', op = ''*'', right = ''20''\<rparr>,
                      \<lparr>block_id = 2, left = ''#2'', op = ''+'', right = ''30''\<rparr>]"
       and i = 1 and ds = "''2''" and str = "''#2''" and ks = "''2''"
       and results = "[JNum (Fin 100)]"]
  have r: "ref_digits (trim ''#2'') = Some ''2''"
    by (simp add: block_rules split del: if_split)
  have d: "digits_val ''2'' = 2"
    by (simp add: parse_defs split del: if_split)
  have reference: "resolveDiagramValue ''#2'' [JNum (Fin 100)] = JNull"
    using t [THEN conjunct2, THEN conjunct2, THEN conjunct2, THEN conjunct1] r d by simp
  have result: "getDiagramResults [\<lparr>block_id = 1, left = ''5'', op = ''*'', right = ''20''\<rparr>,
      \<lparr>block_id = 2, left = ''#2'', op = ''+'', right = ''30''\<rparr>] ! 1 = JNull"
    using t [THEN conjunct2, THEN conjunct2, THEN conjunct2, THEN conjunct2, THEN conjunct1] r d
    by simp
  from r d reference result show ?thesis
    by simp
qed

section \<open>The operator of a block\<close>

text \<open>
  Claim C2, as the code has it. For a block whose operands both resolve to numbers: an
  empty operator string stands for \<open>+\<close>, and an operator that is \<open>+\<close> once trimmed
  adds the operands; an operator that is not blank and, once trimmed, is none of
  \<open>+ - * /\<close> makes the result \<open>null\<close>.
\<close>

theorem operator_default:
  "resolveDiagramValue (left b) results = JNum x
   \<and> resolveDiagramValue (right b) results = JNum y \<longrightarrow>
     (op b = [] \<or> trim (op b) = ''+'' \<longrightarrow> computeDiagramBlock b results = JNum (fadd x y))
     \<and> (trim (op b) \<noteq> [] \<and> trim (op b) \<notin> set [''+'', ''-'', ''*'', ''/'']
          \<longrightarrow> computeDiagramBlock b results = JNull)"
proof (intro impI conjI)
  assume operands: "resolveDiagramValue (left b) results = JNum x
      \<and> resolveDiagramValue (right b) results = JNum y"
  have plus: "trim ''+'' = ''+''"
    by (simp add: trim_def is_space_def)
  {
    assume "op b = [] \<or> trim (op b) = ''+''"
    then have "trim (if op b = [] then ''+'' else op b) = ''+''"
      using plus by auto
    with operands show "computeDiagramBlock b results = JNum (fadd x y)"
      by (simp add: computeDiagramBlock_def js_plus_def Let_def)
  }
  {
    assume unknown: "trim (op b) \<noteq> [] \<and> trim (op b) \<notin> set [''+'', ''-'', ''*'', ''/'']"
    then have "op b \<noteq> []"
      by (auto simp: trim_def)
    with unknown operands show "computeDiagramBlock b results = JNull"
      by (simp add: computeDiagramBlock_def Let_def)
  }
qed

theorem operator_default_witness:
  "resolveDiagramValue ''1'' [] = JNum (Fin 1) \<and> resolveDiagramValue ''2'' [] = JNum (Fin 2)
   \<and> computeDiagramBlock \<lparr>block_id = 1, left = ''1'', op = [], right = ''2''\<rparr> []
       = JNum (Fin 3)
   \<and> trim ''?'' \<noteq> [] \<and> trim ''?'' \<notin> set [''+'', ''-'', ''*'', ''/'']
   \<and> computeDiagramBlock \<lparr>block_id = 1, left = ''1'', op = ''?'', right = ''2''\<rparr> []
       = JNull"
proof -
  have l: "resolveDiagramValue ''1'' [] = JNum (Fin 1)"
    by (simp add: block_rules split del: if_split)
  have r: "resolveDiagramValue ''2'' [] = JNum (Fin 2)"
    by (simp add: block_rules split del: if_split)
  have t: "trim ''?'' = ''?''"
    by (simp add: trim_def is_space_def)
  have s: "fadd (Fin 1) (Fin 2) = Fin 3"
    by (simp add: num_defs split del: if_split)
  from operator_default
    [of "\<lparr>block_id = 1, left = ''1'', op = [], right = ''2''\<rparr>" "[]" "Fin 1" "Fin 2"] l r s
  have blank: "computeDiagramBlock \<lparr>block_id = 1, left = ''1'', op = [], right = ''2''\<rparr> []
      = JNum (Fin 3)"
    by simp
  from operator_default
    [of "\<lparr>block_id = 1, left = ''1'', op = ''?'', right = ''2''\<rparr>" "[]" "Fin 1" "Fin 2"] l r t
  have unknown: "computeDiagramBlock \<lparr>block_id = 1, left = ''1'', op = ''?'', right = ''2''\<rparr> []
      = JNull"
    by simp
  from l r t blank unknown show ?thesis
    by simp
qed

text \<open>
  The claim as stated has every operator other than the four add the operands. With the
  operator \<open>x\<close> both operands resolve to numbers and the result is \<open>null\<close>, not 3.
\<close>

theorem unknown_operator_is_null:
  "resolveDiagramValue ''1'' [] = JNum (Fin 1) \<and> resolveDiagramValue ''2'' [] = JNum (Fin 2)
   \<and> computeDiagramBlock \<lparr>block_id = 1, left = ''1'', op = ''x'', right = ''2''\<rparr> []
       = JNull
   \<and> computeDiagramBlock \<lparr>block_id = 1, left = ''1'', op = ''x'', right = ''2''\<rparr> []
       \<noteq> JNum (fadd (Fin 1) (Fin 2))"
  by (simp add: block_rules split del: if_split)

section \<open>A reference to a block in error\<close>

text \<open>
  Claim C1 has a reference to an earlier result that is the error marker resolve to
  \<open>null\<close>. The string \<open>'Error'\<close> is neither \<open>undefined\<close> nor \<open>null\<close>, so
  \<open>resolveDiagramValue\<close> returns it as the operand: after \<open>1 / 0\<close>, the block \<open>#1 + 30\<close>
  is the string \<open>'Error30'\<close> and the block \<open>#1 * 2\<close> is NaN.
\<close>

theorem error_reference_is_not_null:
  "resolveDiagramValue ''#1'' [JStr ''Error''] = JStr ''Error''
   \<and> getDiagramResults
         [\<lparr>block_id = 1, left = ''1'', op = ''/'', right = ''0''\<rparr>,
          \<lparr>block_id = 2, left = ''#1'', op = ''+'', right = ''30''\<rparr>,
          \<lparr>block_id = 3, left = ''#1'', op = ''*'', right = ''2''\<rparr>]
       = [JStr ''Error'', JStr ''Error30'', JNum NaN]"
  by (simp add: block_rules split del: if_split)

section \<open>The substitution of the variable\<close>

lemma replace_digit_x_head:
  "\<exists>tail. replace_digit_x xStr (c # cs) = c # tail"
  by (cases cs) auto

lemma replace_x_digit_plain_prefix:
  "\<forall>c\<in>set p. \<not> is_x c \<Longrightarrow> replace_x_digit xStr (p @ r) = p @ replace_x_digit xStr r"
proof (induction p)
  case Nil
  then show ?case by simp
next
  case (Cons a p)
  then show ?case by (cases "p @ r") auto
qed

lemma replace_x_plain_prefix:
  "\<forall>c\<in>set p. \<not> is_x c \<Longrightarrow> replace_x xStr (p @ r) = p @ replace_x xStr r"
  by (induction p) (simp_all add: replace_x_def)

lemma digit_not_x: "is_digit c \<Longrightarrow> \<not> is_x c"
  by (auto simp: is_digit_def is_x_def)

lemma between_digits_tail: "\<not> between_digits (a # s) \<Longrightarrow> \<not> between_digits s"
  by (cases s rule: between_digits.cases) auto

lemma substitute_x_agrees:
  "\<forall>c\<in>set xStr. \<not> is_x c \<Longrightarrow> \<not> between_digits s \<Longrightarrow>
     substitute_x xStr s = substitute_spec xStr False s"
proof (induction xStr s rule: replace_digit_x.induct)
  case (1 xStr d c rest)
  note plain = "1.prems"(1) and free = "1.prems"(2)
  have star: "\<not> is_x (CHR ''*'')"
    by (simp add: is_x_def)
  show ?case
  proof (cases "is_digit d \<and> is_x c")
    case True
    with free have no_digit: "\<not> digit_follows rest"
      by (cases rest) (auto simp: digit_follows_def)
    from free have "\<not> between_digits rest"
      by (blast dest: between_digits_tail)
    with "1.IH"(1) [OF True plain] have ih: "substitute_x xStr rest = substitute_spec xStr False rest"
      by simp
    have p: "\<forall>a\<in>set (d # CHR ''*'' # xStr). \<not> is_x a"
      using True plain star digit_not_x by auto
    have "replace_digit_x xStr (d # c # rest)
        = (d # CHR ''*'' # xStr) @ replace_digit_x xStr rest"
      using True by simp
    then have "substitute_x xStr (d # c # rest)
        = (d # CHR ''*'' # xStr) @ substitute_x xStr rest"
      by (simp only: substitute_x_def replace_x_digit_plain_prefix [OF p]
          replace_x_plain_prefix [OF p])
    with ih True no_digit show ?thesis
      using digit_not_x by auto
  next
    case False
    from free have free': "\<not> between_digits (c # rest)"
      by (rule between_digits_tail)
    from "1.IH"(2) [OF False plain free']
    have ih: "substitute_x xStr (c # rest) = substitute_spec xStr False (c # rest)" .
    obtain tail where tail: "replace_digit_x xStr (c # rest) = c # tail"
      using replace_digit_x_head by blast
    from False have first: "replace_digit_x xStr (d # c # rest) = d # c # tail"
      using tail by auto
    show ?thesis
    proof (cases "is_x d")
      case not_x: False
      then have "substitute_x xStr (d # c # rest) = d # substitute_x xStr (c # rest)"
        using first tail by (simp add: substitute_x_def replace_x_def)
      moreover have "substitute_spec xStr False (d # c # rest)
          = d # substitute_spec xStr False (c # rest)"
        using not_x False by auto
      ultimately show ?thesis using ih by simp
    next
      case is_x: True
      show ?thesis
      proof (cases "is_digit c")
        case digit: True
        then have c: "\<not> is_x c" by (rule digit_not_x)
        have pc: "\<forall>a\<in>set [c]. \<not> is_x a" using c by simp
        have "replace_x_digit xStr (c # tail) = c # replace_x_digit xStr tail"
          using replace_x_digit_plain_prefix [OF pc, of xStr tail] by simp
        then have rest_eq: "substitute_x xStr (c # rest)
            = c # replace_x xStr (replace_x_digit xStr tail)"
          using tail c by (simp add: substitute_x_def replace_x_def)
        have p: "\<forall>a\<in>set (xStr @ [CHR ''*'', c]). \<not> is_x a"
          using plain star c by auto
        have "replace_x_digit xStr (d # c # tail)
            = (xStr @ [CHR ''*'', c]) @ replace_x_digit xStr tail"
          using is_x digit by simp
        then have "substitute_x xStr (d # c # rest)
            = (xStr @ [CHR ''*'', c]) @ replace_x xStr (replace_x_digit xStr tail)"
          using first by (simp only: substitute_x_def replace_x_plain_prefix [OF p])
        with rest_eq have "substitute_x xStr (d # c # rest)
            = xStr @ CHR ''*'' # substitute_x xStr (c # rest)"
          by simp
        with ih is_x digit show ?thesis
          by (simp add: digit_follows_def)
      next
        case no_digit: False
        have "replace_x_digit xStr (d # c # tail) = d # replace_x_digit xStr (c # tail)"
          using no_digit by simp
        then have "substitute_x xStr (d # c # rest) = xStr @ substitute_x xStr (c # rest)"
          using first tail is_x by (simp add: substitute_x_def replace_x_def)
        with ih is_x no_digit show ?thesis
          by (simp add: digit_follows_def)
      qed
    qed
  qed
qed (simp_all add: substitute_x_def replace_x_def digit_follows_def)

lemma tokenize_loop_no_digit:
  "\<forall>c\<in>set s. \<not> is_digit c \<Longrightarrow> tokenize_loop s acc = Some ts \<Longrightarrow>
     \<exists>opers. ts = acc @ map TOp opers"
proof (induction s acc arbitrary: ts rule: tokenize_loop.induct)
  case (1 tokens)
  then show ?case by (auto intro: exI [of _ "[]"])
next
  case (2 c cs tokens)
  from "2.prems"(1) have rest: "\<forall>c\<in>set cs. \<not> is_digit c" by simp
  show ?case
  proof (cases "op_of_char c")
    case (Some oper)
    with "2.prems"(2) have "tokenize_loop cs (tokens @ [TOp oper]) = Some ts"
      by simp
    from "2.IH"(3) [OF Some rest this] obtain opers
      where "ts = (tokens @ [TOp oper]) @ map TOp opers" by blast
    then have "ts = tokens @ map TOp (oper # opers)" by simp
    then show ?thesis by blast
  next
    case None
    show ?thesis
    proof (cases "is_num_char c")
      case False
      with "2.IH"(2) [OF None False rest] "2.prems"(2) None show ?thesis by simp
    next
      case True
      with "2.prems"(1) have point: "c = CHR ''.''"
        by (simp add: is_num_char_def)
      have run: "\<forall>d\<in>set (takeWhile is_num_char cs). is_num_char d"
        by (auto dest: set_takeWhileD)
      have "\<forall>d\<in>set (takeWhile is_num_char cs). d = CHR ''.''"
        using rest by (auto dest!: set_takeWhileD simp: is_num_char_def)
      then have "case takeWhile is_num_char cs of [] \<Rightarrow> True | d # _ \<Rightarrow> d = CHR ''.''"
        by (cases "takeWhile is_num_char cs") simp_all
      with parseFloat_numeral_NaN [OF True run] point
      have "parseFloat (c # takeWhile is_num_char cs) = NaN" by simp
      with "2.prems"(2) None True show ?thesis by (simp add: Let_def)
    qed
  qed
qed

lemma evaluate_no_digit:
  assumes "\<forall>c\<in>set s. \<not> is_digit c"
  shows "evaluate s = NoResult"
proof (cases "tokenize s")
  case None
  then show ?thesis by (simp add: evaluate_def)
next
  case (Some ts)
  with tokenize_loop_no_digit [OF assms, of "[]" ts] obtain opers where "ts = map TOp opers"
    by (auto simp: tokenize_def)
  with Some show ?thesis
    by (cases opers) (simp_all add: evaluate_def)
qed

lemma evaluate_safe_eq:
  "evaluate_safe s = (case evaluate s of ErrorMarker \<Rightarrow> NoResult | r \<Rightarrow> r)"
proof (cases "\<exists>c\<in>set s. is_digit c")
  case True
  then show ?thesis by (auto simp: evaluate_safe_def)
next
  case False
  then have "evaluate s = NoResult"
    by (intro evaluate_no_digit) simp
  with False show ?thesis by (simp add: evaluate_safe_def)
qed

lemma digit_char_digit: "k < 10 \<Longrightarrow> is_digit (digit_char k)"
  unfolding digit_char_def is_digit_def by (rule nth_mem) simp

lemma show_nat_digits: "c \<in> set (show_nat n) \<Longrightarrow> is_digit c"
proof (induction n rule: show_nat.induct)
  case (1 n)
  show ?case
  proof (cases "n < 10")
    case True
    with "1.prems" show ?thesis
      by (subst (asm) show_nat.simps) (simp add: digit_char_digit)
  next
    case False
    with "1.prems" have "c \<in> set (show_nat (n div 10)) \<or> c = digit_char (n mod 10)"
      by (subst (asm) show_nat.simps) auto
    with "1.IH" [OF False] show ?thesis
      by (auto simp: digit_char_digit)
  qed
qed

lemma layout_chars:
  "c \<in> set (layout ds n) \<Longrightarrow> c \<in> set ds \<or> is_digit c \<or> c \<in> set ''.e+-''"
  by (auto simp: layout_def Let_def is_digit_def
      dest: in_set_takeD in_set_dropD show_nat_digits split: if_splits)

lemma Number_toString_plain: "c \<in> set (Number_toString x) \<Longrightarrow> \<not> is_x c"
proof -
  assume c: "c \<in> set (Number_toString x)"
  have plain: "\<not> is_x a" if "a \<in> set (positive_toString v)" for a v
  proof -
    from that obtain s n where "a \<in> set (layout (show_nat (nat s)) n)"
      by (auto simp: positive_toString_def split: prod.splits)
    from layout_chars [OF this] show ?thesis
      by (auto dest: show_nat_digits simp: is_digit_def is_x_def)
  qed
  from c show ?thesis
    by (cases x) (auto simp: is_x_def dest: plain split: if_splits)
qed

lemma filter_trim:
  "filter (\<lambda>c. \<not> is_space c) (trim s) = filter (\<lambda>c. \<not> is_space c) s"
proof -
  have drop: "filter (\<lambda>c. \<not> is_space c) (dropWhile is_space t) = filter (\<lambda>c. \<not> is_space c) t"
    for t
    by (induction t) auto
  have "filter (\<lambda>c. \<not> is_space c) (trim s)
      = rev (filter (\<lambda>c. \<not> is_space c) (dropWhile is_space (rev (dropWhile is_space s))))"
    by (simp add: trim_def rev_filter)
  also have "\<dots> = rev (filter (\<lambda>c. \<not> is_space c) (rev (dropWhile is_space s)))"
    by (simp only: drop)
  also have "\<dots> = filter (\<lambda>c. \<not> is_space c) s"
    by (simp add: rev_filter drop)
  finally show ?thesis .
qed

text \<open>
  Where no variable stands between two digits once the white space is removed,
  \<open>evaluateWithX\<close> is the evaluation of the expression, without its white space, after the
  substitution as the specification words it.
\<close>

lemma evaluateWithX_agrees:
  assumes "\<not> between_digits (filter (\<lambda>c. \<not> is_space c) expr)"
  shows "evaluateWithX expr x
    = evaluateWithSubstitution_spec (filter (\<lambda>c. \<not> is_space c) expr) x"
proof (cases "expr = []")
  case True
  then show ?thesis
    by (simp add: evaluateWithX_def evaluateWithSubstitution_spec_def evaluate_def tokenize_def)
next
  case False
  have "substitute_x (Number_toString x) (filter (\<lambda>c. \<not> is_space c) expr)
      = substitute_spec (Number_toString x) False (filter (\<lambda>c. \<not> is_space c) expr)"
    using Number_toString_plain assms by (intro substitute_x_agrees) blast
  with False show ?thesis
    by (simp add: evaluateWithX_def evaluateWithSubstitution_spec_def evaluate_safe_eq
        filter_trim)
qed

section \<open>The variable between two digits\<close>

text \<open>
  Claim C8 has \<open>evaluateWithX\<close> agree with evaluating the expression in which every
  variable is replaced by the value, with a \<open>*\<close> between the variable and a digit next to
  it. In \<open>"2x3"\<close> the first replacement consumes the variable together with the digit
  before it, so that the second finds no variable before the \<open>3\<close>: with 5 for x the code
  evaluates \<open>"2*53"\<close>, where the replacement on both sides gives \<open>"2*5*3"\<close>.
\<close>

theorem variable_between_digits:
  "evaluateWithX ''2x3'' (Fin 5) = Number (Fin 106)
   \<and> evaluateWithSubstitution_spec ''2x3'' (Fin 5) = Number (Fin 30)"
  by (simp add: withx_rules split del: if_split)

end
